theory Spec2Isabelle
  imports Main "HOL-Library.Word"
begin

section \<open>Board constants and the hardware interface\<close>

text \<open>
  The sketch \<^verbatim>\<open>afzuigkap.ino\<close> is written against the Arduino core. The core's pin
  names \<^verbatim>\<open>A1\<close> .. \<^verbatim>\<open>A7\<close> are board constants that the sketch does not define; they are
  kept symbolic here: \<open>A n\<close> is the analog pin \<^verbatim>\<open>An\<close>, \<open>D n\<close> the digital pin \<open>n\<close>, and
  the two kinds never coincide (as on the AVR boards, where \<^verbatim>\<open>A0\<close> is pin 14).
  \<^verbatim>\<open>LOW\<close> and \<^verbatim>\<open>HIGH\<close> are the core's 0 and 1.
\<close>

datatype pin = D nat | A nat

datatype pin_mode = INPUT | OUTPUT | INPUT_PULLUP

abbreviation (input) LOW :: int where "LOW \<equiv> 0"
abbreviation (input) HIGH :: int where "HIGH \<equiv> 1"

datatype error = IndexOutOfBounds

section \<open>Global variables of the sketch\<close>

abbreviation (input) blCount :: int where "blCount \<equiv> 5"

definition buttonLedPins :: "pin list" where
  "buttonLedPins = [A 4, A 5, A 1, A 2, A 3]"

definition lightPin :: pin where "lightPin = D 3"
definition fanPin1 :: pin where "fanPin1 = D 5"
definition fanPin2 :: pin where "fanPin2 = D 4"
definition fanPin3 :: pin where "fanPin3 = D 2"
definition espLightStatePin :: pin where "espLightStatePin = D 9"
definition espLightTogglePin :: pin where "espLightTogglePin = A 7"

text \<open>
  The mutable globals, together with the two things the core remembers for every pin:
  the mode last set by \<^verbatim>\<open>pinMode\<close> and the level last written by \<^verbatim>\<open>digitalWrite\<close>.
  The sketch's \<^verbatim>\<open>int\<close> variables hold table entries, a counter below 31 and samples of
  the 10-bit converter, so none of its additions or subtractions can overflow a 16-bit
  \<^verbatim>\<open>int\<close>; they are modelled as \<open>int\<close>. \<^verbatim>\<open>millisPrev\<close> is an \<^verbatim>\<open>unsigned long\<close>, whose
  wrap-around matters: it is a 32-bit word.
\<close>

record state =
  statusLedStates :: "int list"
  bCurrVals :: "int list"
  bPrevVals :: "int list"
  lightState :: bool
  fanState :: int
  espLightTogglePrev :: int
  espLightToggleCurr :: int
  millisPrev :: "32 word"
  counter :: int
  pinModes :: "pin \<rightharpoonup> pin_mode"
  pinLevels :: "pin \<rightharpoonup> int"

definition initState :: state where
  "initState = \<lparr> statusLedStates = [HIGH, HIGH, HIGH, HIGH, HIGH],
                 bCurrVals = [0, 0, 0, 0, 0],
                 bPrevVals = [0, 0, 0, 0, 0],
                 lightState = False,
                 fanState = 0,
                 espLightTogglePrev = 0,
                 espLightToggleCurr = 0,
                 millisPrev = 0,
                 counter = 0,
                 pinModes = Map.empty,
                 pinLevels = Map.empty \<rparr>"

text \<open>The three arrays of the sketch have \<^verbatim>\<open>blCount\<close> elements each.\<close>

definition arraysOk :: "state \<Rightarrow> bool" where
  "arraysOk s \<longleftrightarrow> length (statusLedStates s) = 5 \<and> length (bCurrVals s) = 5
                 \<and> length (bPrevVals s) = 5"

definition digitalWrite :: "pin \<Rightarrow> int \<Rightarrow> state \<Rightarrow> state" where
  "digitalWrite p v s = s\<lparr>pinLevels := (pinLevels s)(p \<mapsto> v)\<rparr>"

definition pinMode :: "pin \<Rightarrow> pin_mode \<Rightarrow> state \<Rightarrow> state" where
  "pinMode p m s = s\<lparr>pinModes := (pinModes s)(p \<mapsto> m)\<rparr>"

section \<open>Status LEDs\<close>

text \<open>The loop of \<^verbatim>\<open>updateLeds(-1)\<close>, over the indices still to be written.\<close>

fun updateLedsLoop :: "int list \<Rightarrow> state \<Rightarrow> state" where
  "updateLedsLoop [] s = s"
| "updateLedsLoop (i # is) s =
     updateLedsLoop is (digitalWrite (buttonLedPins ! nat i) (statusLedStates s ! nat i) s)"

text \<open>
  \<^verbatim>\<open>updateLeds(int index)\<close>. An index other than \<open>-1\<close> and outside the arrays is an
  out-of-bounds read in the sketch; the model returns the error instead.
\<close>

definition updateLedsIdx :: "int \<Rightarrow> state \<Rightarrow> error + state" where
  "updateLedsIdx index s =
     (if index = -1 then Inr (updateLedsLoop [0..blCount - 1] s)
      else if 0 \<le> index \<and> index < blCount
        then Inr (digitalWrite (buttonLedPins ! nat index) (statusLedStates s ! nat index) s)
      else Inl IndexOutOfBounds)"

definition updateLeds :: "state \<Rightarrow> error + state" where
  "updateLeds s = updateLedsIdx (-1) s"

section \<open>Fan\<close>

definition fanPinStates :: "int list list" where
  "fanPinStates =
    [ [LOW,  LOW,  LOW,   HIGH, HIGH, HIGH, HIGH],
      [HIGH, LOW,  LOW,   LOW,  LOW,  HIGH, HIGH],
      [LOW,  HIGH, LOW,   LOW,  HIGH, LOW,  HIGH],
      [HIGH, HIGH, LOW,   LOW,  HIGH, HIGH, LOW ],
      [HIGH, LOW,  HIGH,  LOW,  HIGH, HIGH, LOW ] ]"

text \<open>
  \<^verbatim>\<open>updateFan\<close> indexes the five rows with \<^verbatim>\<open>fanState\<close>; a value outside \<open>0..4\<close> is an
  out-of-bounds read in the sketch and the error here.
\<close>

definition updateFan :: "state \<Rightarrow> error + state" where
  "updateFan s =
     (if 0 \<le> fanState s \<and> fanState s < 5 then
        let row = fanPinStates ! nat (fanState s);
            s1 = digitalWrite fanPin1 (row ! 0) s;
            s2 = digitalWrite fanPin2 (row ! 1) s1;
            s3 = digitalWrite fanPin3 (row ! 2) s2;
            s4 = s3\<lparr>statusLedStates := (statusLedStates s3)[0 := row ! 3]\<rparr>;
            s5 = s4\<lparr>statusLedStates := (statusLedStates s4)[1 := row ! 4]\<rparr>;
            s6 = s5\<lparr>statusLedStates := (statusLedStates s5)[2 := row ! 5]\<rparr>;
            s7 = s6\<lparr>statusLedStates := (statusLedStates s6)[3 := row ! 6]\<rparr>
        in updateLeds s7
      else Inl IndexOutOfBounds)"

section \<open>Light\<close>

definition updateLight :: "state \<Rightarrow> error + state" where
  "updateLight s =
     (let s1 = digitalWrite lightPin (of_bool (lightState s)) s;
          s2 = (if lightState s1 then pinMode espLightStatePin INPUT s1
                else digitalWrite espLightStatePin LOW (pinMode espLightStatePin OUTPUT s1));
          s3 = s2\<lparr>statusLedStates := (statusLedStates s2)[4 := of_bool (\<not> lightState s2)]\<rparr>
      in updateLedsIdx 4 s3)"

definition toggleLight :: "state \<Rightarrow> error + state" where
  "toggleLight s = updateLight (s\<lparr>lightState := \<not> lightState s\<rparr>)"

section \<open>Buttons\<close>

text \<open>
  \<^verbatim>\<open>readButtonState\<close>; \<open>ain\<close> gives what \<^verbatim>\<open>analogRead\<close> returns for each pin during
  this tick. The settle delays have no effect on the state. The value the sketch's
  function is declared to return is never produced nor used.
\<close>

definition readButtonState :: "int \<Rightarrow> (pin \<Rightarrow> int) \<Rightarrow> state \<Rightarrow> error + state" where
  "readButtonState index ain s =
     (if 0 \<le> index \<and> index < blCount then
        let p = buttonLedPins ! nat index;
            s1 = s\<lparr>bPrevVals := (bPrevVals s)[nat index := bCurrVals s ! nat index]\<rparr>;
            s2 = pinMode p INPUT_PULLUP s1;
            s3 = s2\<lparr>bCurrVals := (bCurrVals s2)[nat index := ain p]\<rparr>;
            s4 = pinMode p OUTPUT s3
        in Inr (digitalWrite p (statusLedStates s4 ! nat index) s4)
      else Inl IndexOutOfBounds)"

text \<open>The \<^verbatim>\<open>switch\<close> of \<^verbatim>\<open>buttonPressed\<close> has no \<^verbatim>\<open>default\<close>: another index falls through.\<close>

definition buttonPressed :: "int \<Rightarrow> state \<Rightarrow> error + state" where
  "buttonPressed index s =
     (if index = 0 \<or> index = 1 \<or> index = 2 then updateFan (s\<lparr>fanState := index\<rparr>)
      else if index = 3 then
        updateFan (if fanState s = 3 then s\<lparr>fanState := 4\<rparr> else s\<lparr>fanState := 3\<rparr>)
      else if index = 4 then toggleLight s
      else Inr s)"

section \<open>The 60 Hz tick\<close>

text \<open>The body of the first loop of \<^verbatim>\<open>loop60\<close>, for one channel.\<close>

definition pollButton :: "int \<Rightarrow> (pin \<Rightarrow> int) \<Rightarrow> state \<Rightarrow> error + state" where
  "pollButton i ain s =
     (case readButtonState i ain s of
        Inl e \<Rightarrow> Inl e
      | Inr s1 \<Rightarrow>
          if bPrevVals s1 ! nat i - bCurrVals s1 ! nat i > 300 then buttonPressed i s1
          else Inr s1)"

fun pollButtons :: "int list \<Rightarrow> (pin \<Rightarrow> int) \<Rightarrow> state \<Rightarrow> error + state" where
  "pollButtons [] ain s = Inr s"
| "pollButtons (i # is) ain s =
     (case pollButton i ain s of Inl e \<Rightarrow> Inl e | Inr s1 \<Rightarrow> pollButtons is ain s1)"

text \<open>The check of the request line from the ESP32.\<close>

definition pollEsp :: "(pin \<Rightarrow> int) \<Rightarrow> state \<Rightarrow> error + state" where
  "pollEsp ain s =
     (let s1 = s\<lparr>espLightTogglePrev := espLightToggleCurr s\<rparr>;
          s2 = s1\<lparr>espLightToggleCurr := ain espLightTogglePin\<rparr>
      in if espLightToggleCurr s2 - espLightTogglePrev s2 > 600 then toggleLight s2
         else Inr s2)"

text \<open>The operator \<^verbatim>\<open>!\<close> of C on an \<^verbatim>\<open>int\<close>: 1 for 0, else 0.\<close>

definition cNot :: "int \<Rightarrow> int" where
  "cNot v = (if v = 0 then 1 else 0)"

text \<open>The blink counter at the end of \<^verbatim>\<open>loop60\<close>.\<close>

definition blinkStep :: "state \<Rightarrow> error + state" where
  "blinkStep s =
     (let s1 = s\<lparr>counter := counter s + 1\<rparr>
      in if counter s1 = 30 then
           let s2 = s1\<lparr>counter := 0\<rparr>
           in if fanState s2 = 4 then
                updateLedsIdx 3
                  (s2\<lparr>statusLedStates :=
                        (statusLedStates s2)[3 := cNot (statusLedStates s2 ! 3)]\<rparr>)
              else Inr s2
         else Inr s1)"

definition loop60 :: "(pin \<Rightarrow> int) \<Rightarrow> state \<Rightarrow> error + state" where
  "loop60 ain s =
     (case pollButtons [0..blCount - 1] ain s of
        Inl e \<Rightarrow> Inl e
      | Inr s1 \<Rightarrow> (case pollEsp ain s1 of Inl e \<Rightarrow> Inl e | Inr s2 \<Rightarrow> blinkStep s2))"

section \<open>Start-up and the main loop\<close>

fun setupLoop :: "int list \<Rightarrow> state \<Rightarrow> state" where
  "setupLoop [] s = s"
| "setupLoop (i # is) s = setupLoop is (pinMode (buttonLedPins ! nat i) OUTPUT s)"

text \<open>\<^verbatim>\<open>setup()\<close> of the sketch (the bare name is reserved in Isabelle).\<close>

definition setupBoard :: "state \<Rightarrow> error + state" where
  "setupBoard s =
     (case updateLeds (setupLoop [0..blCount - 1] s) of
        Inl e \<Rightarrow> Inl e
      | Inr s1 \<Rightarrow>
          let s2 = pinMode lightPin OUTPUT s1;
              s3 = pinMode espLightStatePin OUTPUT s2;
              s4 = digitalWrite espLightStatePin LOW s3;
              s5 = pinMode espLightTogglePin INPUT s4
          in (case updateLight s5 of
                Inl e \<Rightarrow> Inl e
              | Inr s6 \<Rightarrow>
                  updateFan (pinMode fanPin3 OUTPUT (pinMode fanPin2 OUTPUT
                              (pinMode fanPin1 OUTPUT s6)))))"

text \<open>
  One pass of \<^verbatim>\<open>loop\<close>: \<open>millisCurr\<close> is what \<^verbatim>\<open>millis()\<close> returns. The subtraction and the
  comparison with 16 are those of \<^verbatim>\<open>unsigned long\<close>.
\<close>

definition loop :: "32 word \<Rightarrow> (pin \<Rightarrow> int) \<Rightarrow> state \<Rightarrow> error + state" where
  "loop millisCurr ain s =
     (if millisCurr - millisPrev s > 16 then loop60 ain (s\<lparr>millisPrev := millisCurr\<rparr>)
      else Inr s)"

text \<open>A run of the board: \<open>setupBoard\<close> once, then \<^verbatim>\<open>loop\<close> for each clock reading and input.\<close>

fun runLoop :: "(32 word \<times> (pin \<Rightarrow> int)) list \<Rightarrow> state \<Rightarrow> error + state" where
  "runLoop [] s = Inr s"
| "runLoop ((t, ain) # evs) s =
     (case loop t ain s of Inl e \<Rightarrow> Inl e | Inr s1 \<Rightarrow> runLoop evs s1)"

definition run :: "(32 word \<times> (pin \<Rightarrow> int)) list \<Rightarrow> error + state" where
  "run evs = (case setupBoard initState of Inl e \<Rightarrow> Inl e | Inr s \<Rightarrow> runLoop evs s)"

text \<open>A sequence of ticks, one input per tick.\<close>

fun runTicks :: "(pin \<Rightarrow> int) list \<Rightarrow> state \<Rightarrow> error + state" where
  "runTicks [] s = Inr s"
| "runTicks (ain # ains) s =
     (case loop60 ain s of Inl e \<Rightarrow> Inl e | Inr s1 \<Rightarrow> runTicks ains s1)"

section \<open>Observations and the table of the specification\<close>

text \<open>The levels last written to the three relay lines, in the order fan 1, fan 2, fan 3.\<close>

definition relayLines :: "state \<Rightarrow> int option list" where
  "relayLines s = [pinLevels s fanPin1, pinLevels s fanPin2, pinLevels s fanPin3]"

text \<open>
  The indicator columns of the table in the specification, by fan state \<open>0..4\<close>, for
  indicators 0 to 3. The indicators are active low: "on" is the level \<open>LOW\<close>.
\<close>

definition specIndicators :: "int \<Rightarrow> int list" where
  "specIndicators f =
     (if f = 0 then [LOW, HIGH, HIGH, HIGH]
      else if f = 1 then [HIGH, LOW, HIGH, HIGH]
      else if f = 2 then [HIGH, HIGH, LOW, HIGH]
      else [HIGH, HIGH, LOW, LOW])"

text \<open>
  Indicator 4 as the specification words the light toggle: its value is the negation of
  the light state, asserted (driven \<open>LOW\<close>, lit) when the light is off and deasserted
  (\<open>HIGH\<close>, dark) when the light is on.
\<close>

definition specLightIndicator :: "bool \<Rightarrow> int" where
  "specLightIndicator light = (if light then HIGH else LOW)"

text \<open>Calling \<^verbatim>\<open>updateLeds(index)\<close> \<open>n\<close> times in a row.\<close>

fun updateLedsTimes :: "nat \<Rightarrow> int \<Rightarrow> state \<Rightarrow> error + state" where
  "updateLedsTimes 0 index s = Inr s"
| "updateLedsTimes (Suc n) index s =
     (case updateLedsIdx index s of Inl e \<Rightarrow> Inl e | Inr s1 \<Rightarrow> updateLedsTimes n index s1)"

text \<open>
  The press test of the specification for channel \<open>k\<close> at one tick: the sample of the
  previous tick (which is what \<open>bCurrVals\<close> still holds) minus the sample of this tick
  exceeds 300.
\<close>

definition specPressed :: "(pin \<Rightarrow> int) \<Rightarrow> state \<Rightarrow> nat \<Rightarrow> bool" where
  "specPressed ain s k \<longleftrightarrow> bCurrVals s ! k - ain (buttonLedPins ! k) > 300"

text \<open>
  The request test of the specification at one tick: the sample of this tick on the
  request line minus that of the previous tick exceeds 600.
\<close>

definition specPulse :: "(pin \<Rightarrow> int) \<Rightarrow> state \<Rightarrow> bool" where
  "specPulse ain s \<longleftrightarrow> ain espLightTogglePin - espLightToggleCurr s > 600"

text \<open>
  A sequence of ticks whose samples on the request line never rise by more than 600 from
  one tick to the next, starting from the last sample \<open>prev\<close>.
\<close>

fun quietEsp :: "int \<Rightarrow> (pin \<Rightarrow> int) list \<Rightarrow> bool" where
  "quietEsp prev [] = True"
| "quietEsp prev (ain # ains) =
     (ain espLightTogglePin - prev \<le> 600 \<and> quietEsp (ain espLightTogglePin) ains)"

text \<open>
  A sequence of ticks in which the samples of channel 4 never drop by more than 300.
\<close>

fun quietLightButton :: "int \<Rightarrow> (pin \<Rightarrow> int) list \<Rightarrow> bool" where
  "quietLightButton prev [] = True"
| "quietLightButton prev (ain # ains) =
     (prev - ain (buttonLedPins ! 4) \<le> 300 \<and> quietLightButton (ain (buttonLedPins ! 4)) ains)"

text \<open>
  The fan state is 4 (HighBlink) before the first and after each tick of the sequence.
\<close>

fun staysHighBlink :: "(pin \<Rightarrow> int) list \<Rightarrow> state \<Rightarrow> bool" where
  "staysHighBlink [] s = (fanState s = 4)"
| "staysHighBlink (ain # ains) s =
     (fanState s = 4 \<and>
      (case loop60 ain s of Inl e \<Rightarrow> False | Inr s1 \<Rightarrow> staysHighBlink ains s1))"

text \<open>
  Inputs of one tick: the request line reads \<open>v\<close>, every button line the idle 1023.
\<close>

definition espAt :: "int \<Rightarrow> pin \<Rightarrow> int" where
  "espAt v p = (if p = espLightTogglePin then v else 1023)"

text \<open>
  Inputs of one tick: every button line reads \<open>v\<close>, the request line 0.
\<close>

definition buttonsAt :: "int \<Rightarrow> pin \<Rightarrow> int" where
  "buttonsAt v p = (if p = espLightTogglePin then 0 else v)"

section \<open>What the output routines compute\<close>

lemma upto04: "[0..(4::int)] = [0, 1, 2, 3, 4]"
  by (simp add: upto_rec1)

lemma updateLedsLoop_all:
  "updateLedsLoop [0, 1, 2, 3, 4] s =
     s\<lparr>pinLevels := (pinLevels s)(A 4 \<mapsto> statusLedStates s ! 0, A 5 \<mapsto> statusLedStates s ! 1,
          A 1 \<mapsto> statusLedStates s ! 2, A 2 \<mapsto> statusLedStates s ! 3,
          A 3 \<mapsto> statusLedStates s ! 4)\<rparr>"
  by (simp add: digitalWrite_def buttonLedPins_def eval_nat_numeral)

lemma updateLeds_Inr:
  "updateLeds s =
     Inr (s\<lparr>pinLevels := (pinLevels s)(A 4 \<mapsto> statusLedStates s ! 0,
            A 5 \<mapsto> statusLedStates s ! 1, A 1 \<mapsto> statusLedStates s ! 2,
            A 2 \<mapsto> statusLedStates s ! 3, A 3 \<mapsto> statusLedStates s ! 4)\<rparr>)"
  by (simp add: updateLeds_def updateLedsIdx_def upto04 updateLedsLoop_all
        del: updateLedsLoop.simps)

lemma updateLedsIdx_Inr:
  "0 \<le> i \<Longrightarrow> i < 5 \<Longrightarrow>
   updateLedsIdx i s =
     Inr (s\<lparr>pinLevels := (pinLevels s)(buttonLedPins ! nat i \<mapsto> statusLedStates s ! nat i)\<rparr>)"
  by (simp add: updateLedsIdx_def digitalWrite_def)

lemma updateFan_Inr:
  assumes "0 \<le> fanState s" "fanState s < 5"
  shows "updateFan s =
     Inr (let row = fanPinStates ! nat (fanState s);
              leds = (statusLedStates s)[0 := row ! 3, 1 := row ! 4, 2 := row ! 5, 3 := row ! 6]
          in s\<lparr>statusLedStates := leds,
               pinLevels := (pinLevels s)(fanPin1 \<mapsto> row ! 0, fanPin2 \<mapsto> row ! 1,
                  fanPin3 \<mapsto> row ! 2, A 4 \<mapsto> leds ! 0, A 5 \<mapsto> leds ! 1, A 1 \<mapsto> leds ! 2,
                  A 2 \<mapsto> leds ! 3, A 3 \<mapsto> leds ! 4)\<rparr>)"
  using assms by (simp add: updateFan_def updateLeds_Inr Let_def digitalWrite_def)

lemma updateLight_Inr:
  "updateLight s =
     Inr (s\<lparr>statusLedStates := (statusLedStates s)[4 := of_bool (\<not> lightState s)],
            pinModes := (pinModes s)(espLightStatePin \<mapsto>
                           (if lightState s then INPUT else OUTPUT)),
            pinLevels := (if lightState s
               then (pinLevels s)(lightPin \<mapsto> 1, A 3 \<mapsto> (statusLedStates s)[4 := 0] ! 4)
               else (pinLevels s)(lightPin \<mapsto> 0, espLightStatePin \<mapsto> 0,
                      A 3 \<mapsto> (statusLedStates s)[4 := 1] ! 4))\<rparr>)"
  by (simp add: updateLight_def updateLedsIdx_Inr Let_def digitalWrite_def pinMode_def
        buttonLedPins_def)

lemma fanState_cases:
  "0 \<le> (f::int) \<Longrightarrow> f \<le> 4 \<Longrightarrow> f = 0 \<or> f = 1 \<or> f = 2 \<or> f = 3 \<or> f = 4"
  by arith

lemma arraysOk_leds:
  "arraysOk s \<Longrightarrow> \<exists>a b c d e. statusLedStates s = [a, b, c, d, e]"
  by (auto simp: arraysOk_def length_Suc_conv eval_nat_numeral)

section \<open>The fan outputs\<close>

text \<open>
  C1, as the code has it. After \<open>updateFan\<close> the first four indicator values, and the
  levels driven on their four lines, are: all off (\<open>HIGH\<close>) for fan state 0; indicator 0
  and indicator 1 on (\<open>LOW\<close>) for state 1; indicator 0 and indicator 2 on for state 2;
  indicator 0 and indicator 3 on for states 3 and 4. Indicator 0 is thus lit whenever the
  fan runs and dark when it is off, and indicator 2 is dark in states 3 and 4.
\<close>

theorem updateFan_indicators:
  assumes "arraysOk s" "0 \<le> fanState s" "fanState s \<le> 4"
  shows "\<exists>s'. updateFan s = Inr s' \<and>
     take 4 (statusLedStates s') =
       (if fanState s = 0 then [HIGH, HIGH, HIGH, HIGH]
        else if fanState s = 1 then [LOW, LOW, HIGH, HIGH]
        else if fanState s = 2 then [LOW, HIGH, LOW, HIGH]
        else [LOW, HIGH, HIGH, LOW]) \<and>
     map (pinLevels s') (take 4 buttonLedPins) = map Some (take 4 (statusLedStates s'))"
proof -
  from assms(1) obtain a b c d e where l: "statusLedStates s = [a, b, c, d, e]"
    using arraysOk_leds by blast
  from assms(2,3) have "fanState s = 0 \<or> fanState s = 1 \<or> fanState s = 2 \<or> fanState s = 3
      \<or> fanState s = 4"
    by (rule fanState_cases)
  then show ?thesis
    by (elim disjE)
       (simp_all add: updateFan_Inr l Let_def fanPinStates_def fanPin1_def fanPin2_def
          fanPin3_def buttonLedPins_def)
qed

theorem updateFan_indicators_witness:
  "arraysOk (initState\<lparr>fanState := 3\<rparr>) \<and> 0 \<le> fanState (initState\<lparr>fanState := 3\<rparr>)
   \<and> fanState (initState\<lparr>fanState := 3\<rparr>) \<le> 4
   \<and> (\<exists>s'. updateFan (initState\<lparr>fanState := 3\<rparr>) = Inr s'
          \<and> take 4 (statusLedStates s') = [LOW, HIGH, HIGH, LOW]
          \<and> map (pinLevels s') (take 4 buttonLedPins) = map Some (take 4 (statusLedStates s')))"
  using updateFan_indicators [of "initState\<lparr>fanState := 3\<rparr>"]
  by (auto simp: arraysOk_def initState_def)

text \<open>
  C1, as the specification's table states it, fails already in the state the board boots
  in: with the fan off, \<open>updateFan\<close> succeeds and leaves indicator 0 off, where the table
  has it on.
\<close>

theorem updateFan_indicators_counterexample:
  "\<not> isl (updateFan initState)
   \<and> take 4 (statusLedStates (projr (updateFan initState))) = [HIGH, HIGH, HIGH, HIGH]
   \<and> take 4 (statusLedStates (projr (updateFan initState)))
       \<noteq> specIndicators (fanState initState)"
  by (simp add: updateFan_Inr initState_def Let_def fanPinStates_def specIndicators_def)

text \<open>
  C2. For every fan state \<open>0..4\<close>, \<open>updateFan\<close> succeeds, keeps the fan state and leaves
  the three relay lines at the row of the table: (0,0,0), (1,0,0), (0,1,0), (1,1,0),
  (1,0,1).
\<close>

theorem updateFan_relays:
  assumes "0 \<le> fanState s" "fanState s \<le> 4"
  shows "\<exists>s'. updateFan s = Inr s' \<and> fanState s' = fanState s \<and>
     relayLines s' =
       (if fanState s = 0 then [Some LOW, Some LOW, Some LOW]
        else if fanState s = 1 then [Some HIGH, Some LOW, Some LOW]
        else if fanState s = 2 then [Some LOW, Some HIGH, Some LOW]
        else if fanState s = 3 then [Some HIGH, Some HIGH, Some LOW]
        else [Some HIGH, Some LOW, Some HIGH])"
proof -
  from assms have "fanState s = 0 \<or> fanState s = 1 \<or> fanState s = 2 \<or> fanState s = 3
      \<or> fanState s = 4"
    by (rule fanState_cases)
  then show ?thesis
    by (elim disjE)
       (simp_all add: updateFan_Inr relayLines_def Let_def fanPinStates_def fanPin1_def
          fanPin2_def fanPin3_def)
qed

theorem updateFan_relays_witness:
  "0 \<le> fanState (initState\<lparr>fanState := 4\<rparr>) \<and> fanState (initState\<lparr>fanState := 4\<rparr>) \<le> 4
   \<and> (\<exists>s'. updateFan (initState\<lparr>fanState := 4\<rparr>) = Inr s'
          \<and> relayLines s' = [Some HIGH, Some LOW, Some HIGH])"
  using updateFan_relays [of "initState\<lparr>fanState := 4\<rparr>"] by auto

section \<open>Button presses\<close>

lemma buttonPressed_low:
  "index = 0 \<or> index = 1 \<or> index = 2 \<Longrightarrow>
   \<exists>s'. buttonPressed index s = Inr s' \<and> fanState s' = index \<and> lightState s' = lightState s"
  by (auto simp: buttonPressed_def updateFan_Inr Let_def)

lemma buttonPressed_high:
  "\<exists>s'. buttonPressed 3 s = Inr s' \<and> fanState s' = (if fanState s = 3 then 4 else 3)
        \<and> lightState s' = lightState s"
  by (simp add: buttonPressed_def updateFan_Inr Let_def)

lemma buttonPressed_light:
  "\<exists>s'. buttonPressed 4 s = Inr s' \<and> fanState s' = fanState s
        \<and> lightState s' = (\<not> lightState s)"
  by (simp add: buttonPressed_def toggleLight_def updateLight_Inr)

lemma buttonPressed_other:
  "index < 0 \<or> 4 < index \<Longrightarrow> buttonPressed index s = Inr s"
  by (auto simp: buttonPressed_def)

text \<open>
  C3. \<open>buttonPressed\<close> always succeeds. Index 0, 1 or 2 sets the fan state to the index;
  index 3 sets it to 4 (HighBlink) when it was 3 (High) and to 3 otherwise; index 4 flips
  the light and keeps the fan state; any other index returns the state unchanged.
\<close>

theorem buttonPressed_transitions:
  "\<exists>s'. buttonPressed index s = Inr s' \<and>
     (index = 0 \<or> index = 1 \<or> index = 2 \<longrightarrow>
        fanState s' = index \<and> lightState s' = lightState s) \<and>
     (index = 3 \<longrightarrow>
        fanState s' = (if fanState s = 3 then 4 else 3) \<and> lightState s' = lightState s) \<and>
     (index = 4 \<longrightarrow> fanState s' = fanState s \<and> lightState s' = (\<not> lightState s)) \<and>
     (index < 0 \<or> 4 < index \<longrightarrow> s' = s)"
proof -
  consider "index = 0 \<or> index = 1 \<or> index = 2" | "index = 3" | "index = 4"
    | "index < 0 \<or> 4 < index"
    by arith
  then show ?thesis
  proof cases
    case 1
    with buttonPressed_low [OF 1, of s] show ?thesis by auto
  next
    case 2
    with buttonPressed_high [of s] show ?thesis by auto
  next
    case 3
    with buttonPressed_light [of s] show ?thesis by auto
  next
    case 4
    with buttonPressed_other [OF 4, of s] show ?thesis by auto
  qed
qed

theorem buttonPressed_transitions_witness:
  "(\<exists>s'. buttonPressed 3 (initState\<lparr>fanState := 2\<rparr>) = Inr s' \<and> fanState s' = 3)
   \<and> (\<exists>s'. buttonPressed 3 (initState\<lparr>fanState := 3\<rparr>) = Inr s' \<and> fanState s' = 4)
   \<and> (\<exists>s'. buttonPressed 3 (initState\<lparr>fanState := 4\<rparr>) = Inr s' \<and> fanState s' = 3)
   \<and> (\<exists>s'. buttonPressed 1 (initState\<lparr>fanState := 4\<rparr>) = Inr s' \<and> fanState s' = 1)
   \<and> (\<exists>s'. buttonPressed 4 (initState\<lparr>fanState := 4\<rparr>) = Inr s' \<and> fanState s' = 4
          \<and> lightState s')
   \<and> (\<exists>s'. buttonPressed 5 (initState\<lparr>fanState := 4\<rparr>) = Inr s'
          \<and> s' = initState\<lparr>fanState := 4\<rparr>)"
  using buttonPressed_transitions [of 3 "initState\<lparr>fanState := 2\<rparr>"]
        buttonPressed_transitions [of 3 "initState\<lparr>fanState := 3\<rparr>"]
        buttonPressed_transitions [of 3 "initState\<lparr>fanState := 4\<rparr>"]
        buttonPressed_transitions [of 1 "initState\<lparr>fanState := 4\<rparr>"]
        buttonPressed_transitions [of 4 "initState\<lparr>fanState := 4\<rparr>"]
        buttonPressed_transitions [of 5 "initState\<lparr>fanState := 4\<rparr>"]
  by (auto simp: initState_def)

section \<open>The light toggle\<close>

text \<open>
  C4, as the code has it. \<open>toggleLight\<close> succeeds and flips \<open>lightState\<close>; in the state
  it returns, the level stored for indicator 4 and driven on its line is the C negation
  of the new light state: \<open>LOW\<close> exactly when the light is on and \<open>HIGH\<close> exactly when it
  is off. The indicators are active low, so indicator 4 is asserted (lit) exactly when
  the light is on, and dark when it is off. The light output is the new light state, and
  the line to the ESP32 is in \<open>INPUT\<close> mode (floating) when the light is on and in
  \<open>OUTPUT\<close> mode at \<open>LOW\<close> when it is off. Button 4 is this very operation, and a request
  pulse from the ESP32 ends in the same light state, indicator values, pin modes and
  levels.
\<close>

theorem toggleLight_consistent:
  assumes "arraysOk s"
  shows "\<exists>s'. toggleLight s = Inr s' \<and> lightState s' = (\<not> lightState s) \<and>
     statusLedStates s' ! 4 = of_bool (\<not> lightState s') \<and>
     pinLevels s' (buttonLedPins ! 4) = Some (of_bool (\<not> lightState s')) \<and>
     (statusLedStates s' ! 4 = LOW) = lightState s' \<and>
     (statusLedStates s' ! 4 = HIGH) = (\<not> lightState s') \<and>
     (pinLevels s' (buttonLedPins ! 4) = Some LOW) = lightState s' \<and>
     (pinLevels s' (buttonLedPins ! 4) = Some HIGH) = (\<not> lightState s') \<and>
     pinLevels s' lightPin = Some (of_bool (lightState s')) \<and>
     pinModes s' espLightStatePin = Some (if lightState s' then INPUT else OUTPUT) \<and>
     (\<not> lightState s' \<longrightarrow> pinLevels s' espLightStatePin = Some LOW) \<and>
     fanState s' = fanState s \<and> arraysOk s' \<and>
     buttonPressed 4 s = Inr s' \<and>
     (ain espLightTogglePin - espLightToggleCurr s > 600 \<longrightarrow>
        (\<exists>s''. pollEsp ain s = Inr s'' \<and> lightState s'' = lightState s'
           \<and> statusLedStates s'' = statusLedStates s'
           \<and> pinModes s'' = pinModes s' \<and> pinLevels s'' = pinLevels s'))"
proof -
  from assms obtain a b c d e where l: "statusLedStates s = [a, b, c, d, e]"
    using arraysOk_leds by blast
  show ?thesis using assms
    by (simp add: toggleLight_def updateLight_Inr l buttonPressed_def pollEsp_def Let_def
          buttonLedPins_def lightPin_def espLightStatePin_def arraysOk_def)
qed

theorem toggleLight_consistent_witness:
  "arraysOk initState \<and> arraysOk (initState\<lparr>lightState := True\<rparr>)
   \<and> (\<exists>s'. toggleLight initState = Inr s' \<and> lightState s' \<and> statusLedStates s' ! 4 = LOW
          \<and> pinLevels s' (A 3) = Some LOW \<and> pinLevels s' lightPin = Some HIGH
          \<and> pinModes s' espLightStatePin = Some INPUT)
   \<and> (\<exists>s'. toggleLight (initState\<lparr>lightState := True\<rparr>) = Inr s' \<and> \<not> lightState s'
          \<and> statusLedStates s' ! 4 = HIGH
          \<and> pinLevels s' (A 3) = Some HIGH \<and> pinLevels s' lightPin = Some LOW
          \<and> pinModes s' espLightStatePin = Some OUTPUT
          \<and> pinLevels s' espLightStatePin = Some LOW)"
  using toggleLight_consistent [of initState "\<lambda>p. 0"]
        toggleLight_consistent [of "initState\<lparr>lightState := True\<rparr>" "\<lambda>p. 0"]
  by (auto simp: initState_def arraysOk_def buttonLedPins_def)

text \<open>
  C4, as the specification words it (indicator 4 asserted when the light is off), fails at
  the first toggle after start-up: \<open>toggleLight\<close> succeeds, the light is on, and
  indicator 4 is at \<open>LOW\<close>, asserted, where the specification has it deasserted.
\<close>

theorem toggleLight_consistent_counterexample:
  "\<not> isl (toggleLight initState)
   \<and> lightState (projr (toggleLight initState))
   \<and> statusLedStates (projr (toggleLight initState)) ! 4 = LOW
   \<and> pinLevels (projr (toggleLight initState)) (buttonLedPins ! 4) = Some LOW
   \<and> statusLedStates (projr (toggleLight initState)) ! 4
       \<noteq> specLightIndicator (lightState (projr (toggleLight initState)))"
  by (simp add: toggleLight_def updateLight_Inr initState_def specLightIndicator_def
        buttonLedPins_def)

section \<open>Writing the indicators\<close>

lemma updateLedsIdx_all:
  "updateLedsIdx (- 1) s =
     Inr (s\<lparr>pinLevels := (pinLevels s)(A 4 \<mapsto> statusLedStates s ! 0,
            A 5 \<mapsto> statusLedStates s ! 1, A 1 \<mapsto> statusLedStates s ! 2,
            A 2 \<mapsto> statusLedStates s ! 3, A 3 \<mapsto> statusLedStates s ! 4)\<rparr>)"
  using updateLeds_Inr [of s] by (simp add: updateLeds_def)

lemma updateLedsIdx_idem_all:
  "\<exists>s'. updateLedsIdx (- 1) s = Inr s' \<and> updateLedsIdx (- 1) s' = Inr s'
        \<and> s'\<lparr>pinLevels := pinLevels s\<rparr> = s
        \<and> map (pinLevels s') buttonLedPins
            = map (\<lambda>i. Some (statusLedStates s ! i)) [0, 1, 2, 3, 4]"
  by (simp add: updateLedsIdx_all buttonLedPins_def fun_eq_iff)

lemma updateLedsIdx_idem_one:
  assumes "0 \<le> index" "index < 5"
  shows "\<exists>s'. updateLedsIdx index s = Inr s' \<and> updateLedsIdx index s' = Inr s'
        \<and> s'\<lparr>pinLevels := pinLevels s\<rparr> = s
        \<and> pinLevels s'
            = (pinLevels s)(buttonLedPins ! nat index \<mapsto> statusLedStates s ! nat index)"
  using assms by (simp add: updateLedsIdx_Inr)

lemma updateLedsTimes_fix:
  "updateLedsIdx index s' = Inr s' \<Longrightarrow> updateLedsTimes n index s' = Inr s'"
  by (induction n) simp_all

text \<open>
  C9. For the all-channels form (index \<open>-1\<close>, which is what \<open>updateLeds\<close> calls) and for
  each single channel \<open>0..4\<close>: the call succeeds, the state it returns differs from the
  one it was given in the pin levels only, those levels are the stored indicator values,
  and calling it again any number of times returns that same state.
\<close>

theorem updateLeds_idempotent:
  assumes "- 1 \<le> index" "index < 5"
  shows "\<exists>s'. updateLedsIdx index s = Inr s' \<and> updateLedsTimes (Suc n) index s = Inr s'
        \<and> s'\<lparr>pinLevels := pinLevels s\<rparr> = s
        \<and> (if index = - 1
            then map (pinLevels s') buttonLedPins
                   = map (\<lambda>i. Some (statusLedStates s ! i)) [0, 1, 2, 3, 4]
            else pinLevels s'
                   = (pinLevels s)(buttonLedPins ! nat index \<mapsto> statusLedStates s ! nat index))
        \<and> updateLeds s = updateLedsIdx (- 1) s"
proof (cases "index = - 1")
  case True
  from updateLedsIdx_idem_all [of s] obtain s' where
    s': "updateLedsIdx (- 1) s = Inr s'" "updateLedsIdx (- 1) s' = Inr s'"
        "s'\<lparr>pinLevels := pinLevels s\<rparr> = s"
        "map (pinLevels s') buttonLedPins
           = map (\<lambda>i. Some (statusLedStates s ! i)) [0, 1, 2, 3, 4]"
    by blast
  with True updateLedsTimes_fix [OF s'(2), of n] show ?thesis
    by (simp add: updateLeds_def)
next
  case False
  with assms have r: "0 \<le> index" "index < 5" by auto
  from updateLedsIdx_idem_one [OF r, of s] obtain s' where
    s': "updateLedsIdx index s = Inr s'" "updateLedsIdx index s' = Inr s'"
        "s'\<lparr>pinLevels := pinLevels s\<rparr> = s"
        "pinLevels s'
           = (pinLevels s)(buttonLedPins ! nat index \<mapsto> statusLedStates s ! nat index)"
    by blast
  with False updateLedsTimes_fix [OF s'(2), of n] show ?thesis
    by (simp add: updateLeds_def)
qed

theorem updateLeds_idempotent_witness:
  "- 1 \<le> (- 1 :: int) \<and> (- 1 :: int) < 5 \<and> (0 :: int) \<le> 3 \<and> (3 :: int) < 5
   \<and> (\<exists>s'. updateLedsIdx (- 1) initState = Inr s'
          \<and> updateLedsTimes 3 (- 1) initState = Inr s'
          \<and> s'\<lparr>pinLevels := pinLevels initState\<rparr> = initState
          \<and> map (pinLevels s') buttonLedPins
              = [Some HIGH, Some HIGH, Some HIGH, Some HIGH, Some HIGH])
   \<and> (\<exists>s'. updateLedsIdx 3 initState = Inr s' \<and> updateLedsTimes 2 3 initState = Inr s'
          \<and> s'\<lparr>pinLevels := pinLevels initState\<rparr> = initState
          \<and> pinLevels s' = (pinLevels initState)(A 2 \<mapsto> HIGH))"
  using updateLeds_idempotent [of "- 1" initState 2] updateLeds_idempotent [of 3 initState 1]
  by (auto simp: initState_def buttonLedPins_def eval_nat_numeral)

section \<open>One tick, step by step\<close>

lemma arraysOk_lists:
  assumes "arraysOk s"
  obtains a b c d e c0 c1 c2 c3 c4 p0 p1 p2 p3 p4 where
    "statusLedStates s = [a, b, c, d, e]" "bCurrVals s = [c0, c1, c2, c3, c4]"
    "bPrevVals s = [p0, p1, p2, p3, p4]"
proof -
  from assms have "length (statusLedStates s) = 5" "length (bCurrVals s) = 5" "length (bPrevVals s) = 5"
    by (simp_all add: arraysOk_def)
  then show ?thesis using that
    by (auto simp: length_Suc_conv eval_nat_numeral)
qed

lemma index_cases: "0 \<le> (i::int) \<Longrightarrow> i < 5 \<Longrightarrow> i = 0 \<or> i = 1 \<or> i = 2 \<or> i = 3 \<or> i = 4"
  by arith

lemma buttonPressed_frame:
  "\<exists>s'. buttonPressed index s = Inr s' \<and> millisPrev s' = millisPrev s \<and> counter s' = counter s
      \<and> espLightToggleCurr s' = espLightToggleCurr s \<and> espLightTogglePrev s' = espLightTogglePrev s
      \<and> bCurrVals s' = bCurrVals s \<and> bPrevVals s' = bPrevVals s
      \<and> length (statusLedStates s') = length (statusLedStates s)
      \<and> (fanState s' = fanState s \<or> 0 \<le> fanState s' \<and> fanState s' \<le> 4)"
proof -
  consider "index = 0 \<or> index = 1 \<or> index = 2" | "index = 3" | "index = 4"
    | "index < 0 \<or> 4 < index"
    by arith
  then show ?thesis
  proof cases
    case 1 then show ?thesis by (auto simp: buttonPressed_def updateFan_Inr Let_def)
  next
    case 2 then show ?thesis by (simp add: buttonPressed_def updateFan_Inr Let_def)
  next
    case 3 then show ?thesis by (simp add: buttonPressed_def toggleLight_def updateLight_Inr)
  next
    case 4 then show ?thesis by (auto simp: buttonPressed_def)
  qed
qed

lemma readButtonState_Inr:
  assumes "0 \<le> i" "i < 5"
  shows "readButtonState i ain s =
     Inr (s\<lparr>bPrevVals := (bPrevVals s)[nat i := bCurrVals s ! nat i],
            bCurrVals := (bCurrVals s)[nat i := ain (buttonLedPins ! nat i)],
            pinModes := (pinModes s)(buttonLedPins ! nat i \<mapsto> OUTPUT),
            pinLevels := (pinLevels s)(buttonLedPins ! nat i \<mapsto> statusLedStates s ! nat i)\<rparr>)"
  using assms by (simp add: readButtonState_def Let_def pinMode_def digitalWrite_def)

lemma pollButton_frame:
  assumes "0 \<le> i" "i < 5"
  shows "\<exists>s'. pollButton i ain s = Inr s' \<and> millisPrev s' = millisPrev s \<and> counter s' = counter s
      \<and> espLightToggleCurr s' = espLightToggleCurr s \<and> espLightTogglePrev s' = espLightTogglePrev s
      \<and> bCurrVals s' = (bCurrVals s)[nat i := ain (buttonLedPins ! nat i)]
      \<and> length (bPrevVals s') = length (bPrevVals s)
      \<and> length (statusLedStates s') = length (statusLedStates s)
      \<and> (fanState s' = fanState s \<or> 0 \<le> fanState s' \<and> fanState s' \<le> 4)"
proof -
  let ?s1 = "s\<lparr>bPrevVals := (bPrevVals s)[nat i := bCurrVals s ! nat i],
            bCurrVals := (bCurrVals s)[nat i := ain (buttonLedPins ! nat i)],
            pinModes := (pinModes s)(buttonLedPins ! nat i \<mapsto> OUTPUT),
            pinLevels := (pinLevels s)(buttonLedPins ! nat i \<mapsto> statusLedStates s ! nat i)\<rparr>"
  from buttonPressed_frame [of i ?s1] show ?thesis
    using assms by (auto simp: pollButton_def readButtonState_Inr)
qed


lemma pollButton_result:
  assumes "arraysOk s" "0 \<le> i" "i < 5"
  shows "\<exists>s'. pollButton i ain s = Inr s' \<and> arraysOk s' \<and>
     bCurrVals s' = (bCurrVals s)[nat i := ain (buttonLedPins ! nat i)] \<and>
     bPrevVals s' = (bPrevVals s)[nat i := bCurrVals s ! nat i] \<and>
     fanState s' =
       (if bCurrVals s ! nat i - ain (buttonLedPins ! nat i) > 300 \<and> i \<le> 2 then i
        else if bCurrVals s ! nat i - ain (buttonLedPins ! nat i) > 300 \<and> i = 3
          then (if fanState s = 3 then 4 else 3)
        else fanState s) \<and>
     lightState s' =
       (if bCurrVals s ! nat i - ain (buttonLedPins ! nat i) > 300 \<and> i = 4
        then \<not> lightState s else lightState s) \<and>
     statusLedStates s' ! 3 =
       (if bCurrVals s ! nat i - ain (buttonLedPins ! nat i) > 300 \<and> i \<le> 3
        then (if fanState s' \<le> 2 then 1 else 0) else statusLedStates s ! 3) \<and>
     pinLevels s' (A 2) =
       (if bCurrVals s ! nat i - ain (buttonLedPins ! nat i) > 300 \<and> i \<le> 3 \<or> i = 3
        then Some (statusLedStates s' ! 3) else pinLevels s (A 2)) \<and>
     counter s' = counter s \<and> millisPrev s' = millisPrev s \<and>
     espLightToggleCurr s' = espLightToggleCurr s \<and>
     espLightTogglePrev s' = espLightTogglePrev s"
proof -
  from assms(1) obtain a b c d e c0 c1 c2 c3 c4 p0 p1 p2 p3 p4 where
    l: "statusLedStates s = [a, b, c, d, e]" "bCurrVals s = [c0, c1, c2, c3, c4]"
    "bPrevVals s = [p0, p1, p2, p3, p4]"
    by (rule arraysOk_lists)
  from assms(2,3) have "i = 0 \<or> i = 1 \<or> i = 2 \<or> i = 3 \<or> i = 4"
    by (rule index_cases)
  then show ?thesis
    by (elim disjE)
       (simp_all add: pollButton_def readButtonState_Inr l buttonPressed_def updateFan_Inr
          toggleLight_def updateLight_Inr Let_def arraysOk_def buttonLedPins_def
          fanPinStates_def fanPin1_def fanPin2_def fanPin3_def lightPin_def
          espLightStatePin_def)
qed

lemma pollEsp_result:
  "\<exists>s'. pollEsp ain s = Inr s' \<and> (arraysOk s \<longrightarrow> arraysOk s') \<and>
     bCurrVals s' = bCurrVals s \<and> bPrevVals s' = bPrevVals s \<and>
     fanState s' = fanState s \<and>
     lightState s' =
       (if ain espLightTogglePin - espLightToggleCurr s > 600 then \<not> lightState s
        else lightState s) \<and>
     statusLedStates s' ! 3 = statusLedStates s ! 3 \<and>
     length (statusLedStates s') = length (statusLedStates s) \<and>
     pinLevels s' (A 2) = pinLevels s (A 2) \<and>
     counter s' = counter s \<and> millisPrev s' = millisPrev s \<and>
     espLightToggleCurr s' = ain espLightTogglePin \<and>
     espLightTogglePrev s' = espLightToggleCurr s"
  by (simp add: pollEsp_def toggleLight_def updateLight_Inr Let_def arraysOk_def
        lightPin_def espLightStatePin_def)

lemma blinkStep_result:
  "\<exists>s'. blinkStep s = Inr s' \<and>
     bCurrVals s' = bCurrVals s \<and> bPrevVals s' = bPrevVals s \<and>
     fanState s' = fanState s \<and> lightState s' = lightState s \<and>
     statusLedStates s' =
       (if counter s = 29 \<and> fanState s = 4
        then (statusLedStates s)[3 := cNot (statusLedStates s ! 3)] else statusLedStates s) \<and>
     pinLevels s' =
       (if counter s = 29 \<and> fanState s = 4
        then (pinLevels s)(A 2 \<mapsto> (statusLedStates s)[3 := cNot (statusLedStates s ! 3)] ! 3)
        else pinLevels s) \<and>
     pinModes s' = pinModes s \<and>
     counter s' = (if counter s = 29 then 0 else counter s + 1) \<and>
     millisPrev s' = millisPrev s \<and>
     espLightToggleCurr s' = espLightToggleCurr s \<and>
     espLightTogglePrev s' = espLightTogglePrev s"
  by (simp add: blinkStep_def updateLedsIdx_Inr Let_def buttonLedPins_def)




lemma pollButtons_result:
  assumes "arraysOk s"
  shows "\<exists>s'. pollButtons [0, 1, 2, 3, 4] ain s = Inr s' \<and> arraysOk s' \<and>
     bCurrVals s' = map ain buttonLedPins \<and> bPrevVals s' = bCurrVals s \<and>
     fanState s' =
       (let f = (if specPressed ain s 2 then 2 else if specPressed ain s 1 then 1
                 else if specPressed ain s 0 then 0 else fanState s)
        in if specPressed ain s 3 then (if f = 3 then 4 else 3) else f) \<and>
     lightState s' = (if specPressed ain s 4 then \<not> lightState s else lightState s) \<and>
     statusLedStates s' ! 3 =
       (if specPressed ain s 0 \<or> specPressed ain s 1 \<or> specPressed ain s 2 \<or> specPressed ain s 3
        then (if fanState s' \<le> 2 then 1 else 0) else statusLedStates s ! 3) \<and>
     pinLevels s' (A 2) = Some (statusLedStates s' ! 3) \<and>
     counter s' = counter s \<and> millisPrev s' = millisPrev s \<and>
     espLightToggleCurr s' = espLightToggleCurr s \<and>
     espLightTogglePrev s' = espLightTogglePrev s"
proof -
  from assms obtain a b c d e c0 c1 c2 c3 c4 p0 p1 p2 p3 p4 where
    l: "statusLedStates s = [a, b, c, d, e]" "bCurrVals s = [c0, c1, c2, c3, c4]"
    "bPrevVals s = [p0, p1, p2, p3, p4]"
    by (rule arraysOk_lists)
  have i0: "(0::int) \<le> 0" "(0::int) < 5" and i1: "(0::int) \<le> 1" "(1::int) < 5"
    and i2: "(0::int) \<le> 2" "(2::int) < 5" and i3: "(0::int) \<le> 3" "(3::int) < 5"
    and i4: "(0::int) \<le> 4" "(4::int) < 5"
    by simp_all
  define s1 where "s1 = projr (pollButton 0 ain s)"
  have s1: "pollButton 0 ain s = Inr s1" "arraysOk s1"
      "bCurrVals s1 = [ain (A 4), c1, c2, c3, c4]" "bPrevVals s1 = [c0, p1, p2, p3, p4]"
      "fanState s1 = (if specPressed ain s 0 then 0 else fanState s)"
      "lightState s1 = lightState s"
      "statusLedStates s1 ! 3 = (if specPressed ain s 0 then 1 else statusLedStates s ! 3)"
      "counter s1 = counter s" "millisPrev s1 = millisPrev s"
      "espLightToggleCurr s1 = espLightToggleCurr s" "espLightTogglePrev s1 = espLightTogglePrev s"
    using pollButton_result [OF assms i0, where ain = ain]
    by (auto simp: s1_def l specPressed_def buttonLedPins_def)
  define s2 where "s2 = projr (pollButton 1 ain s1)"
  have s2: "pollButton 1 ain s1 = Inr s2" "arraysOk s2"
      "bCurrVals s2 = [ain (A 4), ain (A 5), c2, c3, c4]" "bPrevVals s2 = [c0, c1, p2, p3, p4]"
      "fanState s2 = (if specPressed ain s 1 then 1 else fanState s1)"
      "lightState s2 = lightState s"
      "statusLedStates s2 ! 3 = (if specPressed ain s 1 then 1 else statusLedStates s1 ! 3)"
      "counter s2 = counter s" "millisPrev s2 = millisPrev s"
      "espLightToggleCurr s2 = espLightToggleCurr s" "espLightTogglePrev s2 = espLightTogglePrev s"
    using pollButton_result [OF s1(2) i1, where ain = ain]
    by (auto simp: s2_def l s1 specPressed_def buttonLedPins_def)
  define s3 where "s3 = projr (pollButton 2 ain s2)"
  have s3: "pollButton 2 ain s2 = Inr s3" "arraysOk s3"
      "bCurrVals s3 = [ain (A 4), ain (A 5), ain (A 1), c3, c4]" "bPrevVals s3 = [c0, c1, c2, p3, p4]"
      "fanState s3 = (if specPressed ain s 2 then 2 else fanState s2)"
      "lightState s3 = lightState s"
      "statusLedStates s3 ! 3 = (if specPressed ain s 2 then 1 else statusLedStates s2 ! 3)"
      "counter s3 = counter s" "millisPrev s3 = millisPrev s"
      "espLightToggleCurr s3 = espLightToggleCurr s" "espLightTogglePrev s3 = espLightTogglePrev s"
    using pollButton_result [OF s2(2) i2, where ain = ain]
    by (auto simp: s3_def l s2 specPressed_def buttonLedPins_def)
  define s4 where "s4 = projr (pollButton 3 ain s3)"
  have s4: "pollButton 3 ain s3 = Inr s4" "arraysOk s4"
      "bCurrVals s4 = [ain (A 4), ain (A 5), ain (A 1), ain (A 2), c4]" "bPrevVals s4 = [c0, c1, c2, c3, p4]"
      "fanState s4 = (if specPressed ain s 3 then (if fanState s3 = 3 then 4 else 3) else fanState s3)"
      "lightState s4 = lightState s"
      "statusLedStates s4 ! 3 = (if specPressed ain s 3 then 0 else statusLedStates s3 ! 3)"
      "pinLevels s4 (A 2) = Some (statusLedStates s4 ! 3)"
      "counter s4 = counter s" "millisPrev s4 = millisPrev s"
      "espLightToggleCurr s4 = espLightToggleCurr s" "espLightTogglePrev s4 = espLightTogglePrev s"
    using pollButton_result [OF s3(2) i3, where ain = ain]
    by (auto simp: s4_def l s3 specPressed_def buttonLedPins_def)
  define s5 where "s5 = projr (pollButton 4 ain s4)"
  have s5: "pollButton 4 ain s4 = Inr s5" "arraysOk s5"
      "bCurrVals s5 = [ain (A 4), ain (A 5), ain (A 1), ain (A 2), ain (A 3)]" "bPrevVals s5 = [c0, c1, c2, c3, c4]"
      "fanState s5 = fanState s4"
      "lightState s5 = (if specPressed ain s 4 then \<not> lightState s else lightState s)"
      "statusLedStates s5 ! 3 = statusLedStates s4 ! 3"
      "pinLevels s5 (A 2) = Some (statusLedStates s5 ! 3)"
      "counter s5 = counter s" "millisPrev s5 = millisPrev s"
      "espLightToggleCurr s5 = espLightToggleCurr s" "espLightTogglePrev s5 = espLightTogglePrev s"
    using pollButton_result [OF s4(2) i4, where ain = ain]
    by (auto simp: s5_def l s4 specPressed_def buttonLedPins_def)
  have run: "pollButtons [0, 1, 2, 3, 4] ain s = Inr s5"
    by (simp add: s1(1) s2(1) s3(1) s4(1) s5(1))
  have fan: "fanState s5 =
       (let f = (if specPressed ain s 2 then 2 else if specPressed ain s 1 then 1
                 else if specPressed ain s 0 then 0 else fanState s)
        in if specPressed ain s 3 then (if f = 3 then 4 else 3) else f)"
    by (simp add: s5(5) s4(5) s3(5) s2(5) s1(5) Let_def)
  have led: "statusLedStates s5 ! 3 =
       (if specPressed ain s 0 \<or> specPressed ain s 1 \<or> specPressed ain s 2 \<or> specPressed ain s 3
        then (if fanState s5 \<le> 2 then 1 else 0) else statusLedStates s ! 3)"
    by (simp add: s5(5,7) s4(5,7) s3(5,7) s2(5,7) s1(5,7))
  show ?thesis
    using run fan led s5 by (simp add: l buttonLedPins_def)
qed

lemma loop60_result:
  assumes "arraysOk s"
  shows "\<exists>s'. loop60 ain s = Inr s' \<and> arraysOk s' \<and>
     bCurrVals s' = map ain buttonLedPins \<and> bPrevVals s' = bCurrVals s \<and>
     fanState s' =
       (let f = (if specPressed ain s 2 then 2 else if specPressed ain s 1 then 1
                 else if specPressed ain s 0 then 0 else fanState s)
        in if specPressed ain s 3 then (if f = 3 then 4 else 3) else f) \<and>
     lightState s' = ((lightState s \<noteq> specPressed ain s 4) \<noteq> specPulse ain s) \<and>
     statusLedStates s' ! 3 =
       (let v = (if specPressed ain s 0 \<or> specPressed ain s 1 \<or> specPressed ain s 2
                    \<or> specPressed ain s 3
                 then (if fanState s' \<le> 2 then 1 else 0) else statusLedStates s ! 3)
        in if counter s = 29 \<and> fanState s' = 4 then cNot v else v) \<and>
     pinLevels s' (A 2) = Some (statusLedStates s' ! 3) \<and>
     counter s' = (if counter s = 29 then 0 else counter s + 1) \<and>
     millisPrev s' = millisPrev s \<and>
     espLightToggleCurr s' = ain espLightTogglePin \<and>
     espLightTogglePrev s' = espLightToggleCurr s"
proof -
  define s1 where "s1 = projr (pollButtons [0, 1, 2, 3, 4] ain s)"
  have s1: "pollButtons [0, 1, 2, 3, 4] ain s = Inr s1" "arraysOk s1"
     "bCurrVals s1 = map ain buttonLedPins" "bPrevVals s1 = bCurrVals s"
     "fanState s1 =
       (let f = (if specPressed ain s 2 then 2 else if specPressed ain s 1 then 1
                 else if specPressed ain s 0 then 0 else fanState s)
        in if specPressed ain s 3 then (if f = 3 then 4 else 3) else f)"
     "lightState s1 = (if specPressed ain s 4 then \<not> lightState s else lightState s)"
     "statusLedStates s1 ! 3 =
       (if specPressed ain s 0 \<or> specPressed ain s 1 \<or> specPressed ain s 2 \<or> specPressed ain s 3
        then (if fanState s1 \<le> 2 then 1 else 0) else statusLedStates s ! 3)"
     "pinLevels s1 (A 2) = Some (statusLedStates s1 ! 3)"
     "counter s1 = counter s" "millisPrev s1 = millisPrev s"
     "espLightToggleCurr s1 = espLightToggleCurr s"
     "espLightTogglePrev s1 = espLightTogglePrev s"
    using pollButtons_result [OF assms, of ain] unfolding s1_def by auto
  define s2 where "s2 = projr (pollEsp ain s1)"
  have s2: "pollEsp ain s1 = Inr s2" "arraysOk s2"
     "bCurrVals s2 = bCurrVals s1" "bPrevVals s2 = bPrevVals s1" "fanState s2 = fanState s1"
     "lightState s2 = (if specPulse ain s then \<not> lightState s1 else lightState s1)"
     "statusLedStates s2 ! 3 = statusLedStates s1 ! 3"
     "pinLevels s2 (A 2) = pinLevels s1 (A 2)"
     "counter s2 = counter s" "millisPrev s2 = millisPrev s"
     "espLightToggleCurr s2 = ain espLightTogglePin"
     "espLightTogglePrev s2 = espLightToggleCurr s"
    using pollEsp_result [of ain s1] s1(2) unfolding s2_def
    by (auto simp: s1 specPulse_def)
  from s2(2) have len: "3 < length (statusLedStates s2)"
    by (simp add: arraysOk_def)
  define s3 where "s3 = projr (blinkStep s2)"
  have s3: "blinkStep s2 = Inr s3" "arraysOk s3"
     "bCurrVals s3 = bCurrVals s2" "bPrevVals s3 = bPrevVals s2" "fanState s3 = fanState s2"
     "lightState s3 = lightState s2"
     "statusLedStates s3 ! 3 =
        (if counter s = 29 \<and> fanState s2 = 4 then cNot (statusLedStates s2 ! 3)
         else statusLedStates s2 ! 3)"
     "pinLevels s3 (A 2) = Some (statusLedStates s3 ! 3)"
     "counter s3 = (if counter s = 29 then 0 else counter s + 1)" "millisPrev s3 = millisPrev s"
     "espLightToggleCurr s3 = espLightToggleCurr s2"
     "espLightTogglePrev s3 = espLightTogglePrev s2"
    using blinkStep_result [of s2] s2(2) len unfolding s3_def
    by (auto simp: s2 s1(8) arraysOk_def)
  have "loop60 ain s = Inr s3"
    by (simp add: loop60_def upto04 s1(1) s2(1) s3(1) del: pollButtons.simps)
  then show ?thesis
    using s3 s2 s1 by (auto simp: Let_def)
qed

section \<open>The request line from the ESP32\<close>

lemma runTicks_quiet:
  "arraysOk s \<Longrightarrow> quietEsp (espLightToggleCurr s) ains \<Longrightarrow>
   quietLightButton (bCurrVals s ! 4) ains \<Longrightarrow>
   \<exists>t. runTicks ains s = Inr t \<and> lightState t = lightState s"
proof (induction ains arbitrary: s)
  case Nil
  then show ?case by simp
next
  case (Cons ain ains)
  from loop60_result [OF Cons.prems(1), of ain] obtain s1 where
    s1: "loop60 ain s = Inr s1" "arraysOk s1" "bCurrVals s1 = map ain buttonLedPins"
        "lightState s1 = ((lightState s \<noteq> specPressed ain s 4) \<noteq> specPulse ain s)"
        "espLightToggleCurr s1 = ain espLightTogglePin"
    by blast
  from Cons.prems have q: "\<not> specPressed ain s 4" "\<not> specPulse ain s"
    "quietEsp (espLightToggleCurr s1) ains" "quietLightButton (bCurrVals s1 ! 4) ains"
    by (simp_all add: specPressed_def specPulse_def s1 buttonLedPins_def)
  from Cons.IH [OF s1(2) q(3,4)] show ?case
    by (simp add: s1 q)
qed

text \<open>
  C5. At every tick the request check alone flips the light exactly when this tick's
  sample exceeds the previous one by more than 600, and the whole tick ends with the
  light flipped once for such a pulse and once for a press of button 4, and with this
  tick's sample stored as the previous one of the next tick. Over any sequence of ticks
  in which the request line never rises by more than 600 between consecutive samples
  (and button 4 is not pressed) the light state does not change.
\<close>

theorem esp_toggle_request:
  assumes "arraysOk s"
  shows "\<exists>s' u. loop60 ain s = Inr s' \<and>
     lightState s' = ((lightState s \<noteq> specPressed ain s 4) \<noteq> specPulse ain s) \<and>
     espLightToggleCurr s' = ain espLightTogglePin \<and>
     pollEsp ain s = Inr u \<and> lightState u = (lightState s \<noteq> specPulse ain s) \<and>
     (quietEsp (espLightToggleCurr s) ains \<and> quietLightButton (bCurrVals s ! 4) ains \<longrightarrow>
        (\<exists>t. runTicks ains s = Inr t \<and> lightState t = lightState s))"
proof -
  have "\<exists>u. pollEsp ain s = Inr u \<and> lightState u = (lightState s \<noteq> specPulse ain s)"
    using pollEsp_result [of ain s] by (auto simp: specPulse_def)
  with loop60_result [OF assms, of ain] runTicks_quiet [OF assms, of ains] show ?thesis
    by blast
qed

theorem esp_toggle_request_witness:
  "arraysOk initState
   \<and> (\<exists>s'. loop60 (espAt 601) initState = Inr s' \<and> lightState s'
          \<and> espLightToggleCurr s' = 601)
   \<and> (\<exists>s'. loop60 (espAt 600) initState = Inr s' \<and> \<not> lightState s'
          \<and> espLightToggleCurr s' = 600)
   \<and> (\<exists>t. runTicks [espAt 600, espAt 1023, espAt 1023] initState = Inr t \<and> \<not> lightState t)"
  using esp_toggle_request [of initState "espAt 601" "[]"]
        esp_toggle_request [of initState "espAt 600" "[espAt 600, espAt 1023, espAt 1023]"]
  by (auto simp: arraysOk_def initState_def specPressed_def specPulse_def espAt_def
        buttonLedPins_def espLightTogglePin_def)

section \<open>Frame of a whole tick\<close>

lemma pollButtons_frame:
  "\<exists>s'. pollButtons [0, 1, 2, 3, 4] ain s = Inr s' \<and> millisPrev s' = millisPrev s
      \<and> counter s' = counter s
      \<and> length (bCurrVals s') = length (bCurrVals s)
      \<and> length (bPrevVals s') = length (bPrevVals s)
      \<and> length (statusLedStates s') = length (statusLedStates s)
      \<and> (fanState s' = fanState s \<or> 0 \<le> fanState s' \<and> fanState s' \<le> 4)"
proof -
  have i0: "(0::int) \<le> 0" "(0::int) < 5" and i1: "(0::int) \<le> 1" "(1::int) < 5"
    and i2: "(0::int) \<le> 2" "(2::int) < 5" and i3: "(0::int) \<le> 3" "(3::int) < 5"
    and i4: "(0::int) \<le> 4" "(4::int) < 5"
    by simp_all
  from pollButton_frame [OF i0, of ain s] obtain s1 where
    s1: "pollButton 0 ain s = Inr s1" "millisPrev s1 = millisPrev s" "counter s1 = counter s"
      "length (bCurrVals s1) = length (bCurrVals s)" "length (bPrevVals s1) = length (bPrevVals s)"
      "length (statusLedStates s1) = length (statusLedStates s)"
      "fanState s1 = fanState s \<or> 0 \<le> fanState s1 \<and> fanState s1 \<le> 4"
    by auto
  from pollButton_frame [OF i1, of ain s1] obtain s2 where
    s2: "pollButton 1 ain s1 = Inr s2" "millisPrev s2 = millisPrev s1" "counter s2 = counter s1"
      "length (bCurrVals s2) = length (bCurrVals s1)" "length (bPrevVals s2) = length (bPrevVals s1)"
      "length (statusLedStates s2) = length (statusLedStates s1)"
      "fanState s2 = fanState s1 \<or> 0 \<le> fanState s2 \<and> fanState s2 \<le> 4"
    by auto
  from pollButton_frame [OF i2, of ain s2] obtain s3 where
    s3: "pollButton 2 ain s2 = Inr s3" "millisPrev s3 = millisPrev s2" "counter s3 = counter s2"
      "length (bCurrVals s3) = length (bCurrVals s2)" "length (bPrevVals s3) = length (bPrevVals s2)"
      "length (statusLedStates s3) = length (statusLedStates s2)"
      "fanState s3 = fanState s2 \<or> 0 \<le> fanState s3 \<and> fanState s3 \<le> 4"
    by auto
  from pollButton_frame [OF i3, of ain s3] obtain s4 where
    s4: "pollButton 3 ain s3 = Inr s4" "millisPrev s4 = millisPrev s3" "counter s4 = counter s3"
      "length (bCurrVals s4) = length (bCurrVals s3)" "length (bPrevVals s4) = length (bPrevVals s3)"
      "length (statusLedStates s4) = length (statusLedStates s3)"
      "fanState s4 = fanState s3 \<or> 0 \<le> fanState s4 \<and> fanState s4 \<le> 4"
    by auto
  from pollButton_frame [OF i4, of ain s4] obtain s5 where
    s5: "pollButton 4 ain s4 = Inr s5" "millisPrev s5 = millisPrev s4" "counter s5 = counter s4"
      "length (bCurrVals s5) = length (bCurrVals s4)" "length (bPrevVals s5) = length (bPrevVals s4)"
      "length (statusLedStates s5) = length (statusLedStates s4)"
      "fanState s5 = fanState s4 \<or> 0 \<le> fanState s5 \<and> fanState s5 \<le> 4"
    by auto
  have "pollButtons [0, 1, 2, 3, 4] ain s = Inr s5"
    by (simp add: s1(1) s2(1) s3(1) s4(1) s5(1))
  moreover have "fanState s5 = fanState s \<or> 0 \<le> fanState s5 \<and> fanState s5 \<le> 4"
    using s1(7) s2(7) s3(7) s4(7) s5(7) by auto
  ultimately show ?thesis
    using s1(2-6) s2(2-6) s3(2-6) s4(2-6) s5(2-6) by simp
qed

lemma loop60_frame:
  "\<exists>s'. loop60 ain s = Inr s' \<and> millisPrev s' = millisPrev s
      \<and> counter s' = (if counter s = 29 then 0 else counter s + 1)
      \<and> length (bCurrVals s') = length (bCurrVals s)
      \<and> length (bPrevVals s') = length (bPrevVals s)
      \<and> length (statusLedStates s') = length (statusLedStates s)
      \<and> (fanState s' = fanState s \<or> 0 \<le> fanState s' \<and> fanState s' \<le> 4)"
proof -
  from pollButtons_frame [of ain s] obtain s1 where
    s1: "pollButtons [0, 1, 2, 3, 4] ain s = Inr s1" "millisPrev s1 = millisPrev s"
      "counter s1 = counter s"
      "length (bCurrVals s1) = length (bCurrVals s)" "length (bPrevVals s1) = length (bPrevVals s)"
      "length (statusLedStates s1) = length (statusLedStates s)"
      "fanState s1 = fanState s \<or> 0 \<le> fanState s1 \<and> fanState s1 \<le> 4"
    by auto
  from pollEsp_result [of ain s1] obtain s2 where
    s2: "pollEsp ain s1 = Inr s2" "millisPrev s2 = millisPrev s1" "counter s2 = counter s1"
      "bCurrVals s2 = bCurrVals s1" "bPrevVals s2 = bPrevVals s1"
      "length (statusLedStates s2) = length (statusLedStates s1)"
      "fanState s2 = fanState s1"
    by auto
  from blinkStep_result [of s2] obtain s3 where
    s3: "blinkStep s2 = Inr s3" "millisPrev s3 = millisPrev s2"
      "counter s3 = (if counter s2 = 29 then 0 else counter s2 + 1)"
      "bCurrVals s3 = bCurrVals s2" "bPrevVals s3 = bPrevVals s2"
      "length (statusLedStates s3) = length (statusLedStates s2)"
      "fanState s3 = fanState s2"
    by auto
  have "loop60 ain s = Inr s3"
    by (simp add: loop60_def upto04 s1(1) s2(1) s3(1) del: pollButtons.simps)
  then show ?thesis
    using s1(2-7) s2(2-7) s3(2-7) by simp
qed

section \<open>The time base\<close>

lemma elapsed_wrap:
  fixes prev :: "32 word"
  assumes "d < 2 ^ 32"
  shows "unat (prev + word_of_nat d - prev) = d"
proof -
  have "prev + word_of_nat d - prev = (word_of_nat d :: 32 word)" by simp
  moreover from assms have "unat (word_of_nat d :: 32 word) = d"
    by (intro of_nat_inverse) simp_all
  ultimately show ?thesis by simp
qed

text \<open>
  C8. Let \<open>d\<close> milliseconds (fewer than \<open>2 ^ 32\<close>) have passed since the clock reading
  stored in \<open>millisPrev\<close>, so that the clock now reads \<open>millisPrev + d\<close>, wrapped to 32
  bits. Then the wrapping difference \<open>now - millisPrev\<close> is \<open>d\<close> again, whatever the two
  readings are, and \<open>loop\<close> runs the tick (seen in the blink counter, which every tick
  changes) exactly when that difference exceeds 16, that is when more than 16 ms have
  passed; the tick stores \<open>now\<close> as the new reference, and a pass without a tick changes
  nothing.
\<close>

theorem loop_tick_period:
  assumes "d < 2 ^ 32" "now = millisPrev s + word_of_nat d"
  shows "\<exists>s'. loop now ain s = Inr s' \<and>
     (counter s' \<noteq> counter s) = (16 < now - millisPrev s) \<and>
     (16 < now - millisPrev s) = (16 < d) \<and>
     unat (now - millisPrev s) = d \<and>
     (if 16 < d
      then millisPrev s' = now \<and> loop60 ain (s\<lparr>millisPrev := now\<rparr>) = Inr s'
        \<and> counter s' = (if counter s = 29 then 0 else counter s + 1)
      else s' = s)"
proof -
  have u: "unat (now - millisPrev s) = d"
    unfolding assms(2) using assms(1) by (rule elapsed_wrap)
  then have c: "(16 < now - millisPrev s) = (16 < d)"
    by (simp add: word_less_nat_alt)
  from loop60_frame [of ain "s\<lparr>millisPrev := now\<rparr>"] obtain s' where
    s': "loop60 ain (s\<lparr>millisPrev := now\<rparr>) = Inr s'" "millisPrev s' = now"
      "counter s' = (if counter s = 29 then 0 else counter s + 1)"
    by auto
  show ?thesis
  proof (cases "16 < d")
    case True
    with c s' u show ?thesis by (simp add: loop_def)
  next
    case False
    with c u show ?thesis by (simp add: loop_def)
  qed
qed

theorem loop_tick_period_witness:
  "(32::nat) < 2 ^ 32 \<and> (16::nat) < 2 ^ 32
   \<and> (\<exists>s'. loop 16 (espAt 0) (initState\<lparr>millisPrev := 0xFFFFFFF0\<rparr>) = Inr s'
          \<and> counter s' = 1 \<and> millisPrev s' = 16)
   \<and> (\<exists>s'. loop 0 (espAt 0) (initState\<lparr>millisPrev := 0xFFFFFFF0\<rparr>) = Inr s'
          \<and> s' = initState\<lparr>millisPrev := 0xFFFFFFF0\<rparr>)"
  using loop_tick_period [of 32 16 "initState\<lparr>millisPrev := 0xFFFFFFF0\<rparr>" "espAt 0"]
        loop_tick_period [of 16 0 "initState\<lparr>millisPrev := 0xFFFFFFF0\<rparr>" "espAt 0"]
  by (auto simp: initState_def)

section \<open>The fan state stays inside the table\<close>

lemma setupBoard_initState:
  "\<exists>s. setupBoard initState = Inr s \<and> fanState s = 0 \<and> arraysOk s \<and> counter s = 0 \<and> \<not> lightState s"
  by (simp add: setupBoard_def upto04 updateLeds_Inr updateLight_Inr updateFan_Inr Let_def
        pinMode_def digitalWrite_def initState_def arraysOk_def)

lemma loop_invariant:
  assumes "0 \<le> fanState s" "fanState s \<le> 4" "arraysOk s" "0 \<le> counter s" "counter s < 30"
  shows "\<exists>s'. loop t ain s = Inr s' \<and> 0 \<le> fanState s' \<and> fanState s' \<le> 4 \<and> arraysOk s'
           \<and> 0 \<le> counter s' \<and> counter s' < 30"
proof (cases "16 < t - millisPrev s")
  case True
  from loop60_frame [of ain "s\<lparr>millisPrev := t\<rparr>"] obtain s' where
    "loop60 ain (s\<lparr>millisPrev := t\<rparr>) = Inr s'"
    "counter s' = (if counter s = 29 then 0 else counter s + 1)"
    "length (bCurrVals s') = length (bCurrVals s)"
    "length (bPrevVals s') = length (bPrevVals s)"
    "length (statusLedStates s') = length (statusLedStates s)"
    "fanState s' = fanState s \<or> 0 \<le> fanState s' \<and> fanState s' \<le> 4"
    by auto
  with True assms show ?thesis
    by (auto simp: loop_def arraysOk_def)
next
  case False
  with assms show ?thesis by (simp add: loop_def)
qed

lemma runLoop_invariant:
  "0 \<le> fanState s \<Longrightarrow> fanState s \<le> 4 \<Longrightarrow> arraysOk s \<Longrightarrow> 0 \<le> counter s \<Longrightarrow> counter s < 30 \<Longrightarrow>
   \<exists>s'. runLoop evs s = Inr s' \<and> 0 \<le> fanState s' \<and> fanState s' \<le> 4 \<and> arraysOk s'
           \<and> 0 \<le> counter s' \<and> counter s' < 30"
proof (induction evs arbitrary: s)
  case Nil
  then show ?case by simp
next
  case (Cons ev evs)
  obtain t ain where ev: "ev = (t, ain)" by (cases ev)
  from loop_invariant [OF Cons.prems, of t ain] obtain s1 where
    s1: "loop t ain s = Inr s1" "0 \<le> fanState s1" "fanState s1 \<le> 4" "arraysOk s1"
        "0 \<le> counter s1" "counter s1 < 30"
    by blast
  from Cons.IH [OF s1(2-6)] show ?case
    by (simp add: ev s1(1))
qed

text \<open>
  C10. Every run of the board (start-up, then any number of passes of \<open>loop\<close> with any
  clock readings and any samples) returns a state, so no call of \<open>updateFan\<close> in it read
  outside the table, and in that state the fan state is between 0 and 4, from where
  \<open>updateFan\<close> succeeds again. The arrays keep their five elements and the blink counter
  stays below 30.
\<close>

theorem fanState_in_range:
  "\<exists>s'. run evs = Inr s' \<and> 0 \<le> fanState s' \<and> fanState s' \<le> 4
        \<and> (\<exists>t. updateFan s' = Inr t)
        \<and> arraysOk s' \<and> 0 \<le> counter s' \<and> counter s' < 30"
proof -
  from setupBoard_initState obtain s where
    s: "setupBoard initState = Inr s" "fanState s = 0" "arraysOk s" "counter s = 0"
    by blast
  then have "0 \<le> fanState s" "fanState s \<le> 4" "arraysOk s" "0 \<le> counter s" "counter s < 30"
    by simp_all
  from runLoop_invariant [OF this, of evs] obtain s' where
    s': "runLoop evs s = Inr s'" "0 \<le> fanState s'" "fanState s' \<le> 4" "arraysOk s'"
        "0 \<le> counter s'" "counter s' < 30"
    by blast
  from s'(2,3) have "\<exists>t. updateFan s' = Inr t"
    by (simp add: updateFan_Inr)
  with s s' show ?thesis
    by (simp add: run_def)
qed

section \<open>Press detection\<close>

text \<open>
  C6. For each channel \<open>i\<close> of \<open>0..4\<close>, the read of the tick moves the previous sample to
  \<open>bPrevVals\<close> and stores the new one, and the loop body then calls \<open>buttonPressed i\<close>
  exactly when the previous sample exceeds the new one by more than 300; otherwise it
  only returns the state after the read. In the fan and light state this shows as the
  transition of button \<open>i\<close> or none. Over the whole tick the five channels are handled in
  order, and the stored samples are those of this tick.
\<close>

theorem press_threshold:
  assumes "arraysOk s" "0 \<le> i" "i < 5"
  shows "\<exists>s1 s' t. readButtonState i ain s = Inr s1 \<and>
     bPrevVals s1 ! nat i = bCurrVals s ! nat i \<and>
     bCurrVals s1 ! nat i = ain (buttonLedPins ! nat i) \<and>
     fanState s1 = fanState s \<and> lightState s1 = lightState s \<and>
     pollButton i ain s = Inr s' \<and>
     (if specPressed ain s (nat i) then buttonPressed i s1 = Inr s' else s' = s1) \<and>
     fanState s' =
       (if specPressed ain s (nat i) \<and> i \<le> 2 then i
        else if specPressed ain s (nat i) \<and> i = 3 then (if fanState s = 3 then 4 else 3)
        else fanState s) \<and>
     lightState s' = (lightState s \<noteq> (specPressed ain s (nat i) \<and> i = 4)) \<and>
     loop60 ain s = Inr t \<and> bCurrVals t = map ain buttonLedPins \<and>
     fanState t =
       (let f = (if specPressed ain s 2 then 2 else if specPressed ain s 1 then 1
                 else if specPressed ain s 0 then 0 else fanState s)
        in if specPressed ain s 3 then (if f = 3 then 4 else 3) else f)"
proof -
  from assms(1) obtain a b c d e c0 c1 c2 c3 c4 p0 p1 p2 p3 p4 where
    l: "statusLedStates s = [a, b, c, d, e]" "bCurrVals s = [c0, c1, c2, c3, c4]"
    "bPrevVals s = [p0, p1, p2, p3, p4]"
    by (rule arraysOk_lists)
  define s1 where "s1 = s\<lparr>bPrevVals := (bPrevVals s)[nat i := bCurrVals s ! nat i],
            bCurrVals := (bCurrVals s)[nat i := ain (buttonLedPins ! nat i)],
            pinModes := (pinModes s)(buttonLedPins ! nat i \<mapsto> OUTPUT),
            pinLevels := (pinLevels s)(buttonLedPins ! nat i \<mapsto> statusLedStates s ! nat i)\<rparr>"
  have r: "readButtonState i ain s = Inr s1"
    using assms(2,3) by (simp add: readButtonState_Inr s1_def)
  from assms(2,3) have ic: "i = 0 \<or> i = 1 \<or> i = 2 \<or> i = 3 \<or> i = 4"
    by (rule index_cases)
  have p: "bPrevVals s1 ! nat i = bCurrVals s ! nat i"
          "bCurrVals s1 ! nat i = ain (buttonLedPins ! nat i)"
          "fanState s1 = fanState s" "lightState s1 = lightState s"
    using ic by (auto simp: s1_def l)
  have pb: "pollButton i ain s =
              (if specPressed ain s (nat i) then buttonPressed i s1 else Inr s1)"
    by (simp add: pollButton_def r p specPressed_def)
  define s' where "s' = projr (pollButton i ain s)"
  have s': "pollButton i ain s = Inr s'"
     "fanState s' =
       (if specPressed ain s (nat i) \<and> i \<le> 2 then i
        else if specPressed ain s (nat i) \<and> i = 3 then (if fanState s = 3 then 4 else 3)
        else fanState s)"
     "lightState s' = (lightState s \<noteq> (specPressed ain s (nat i) \<and> i = 4))"
    using pollButton_result [OF assms, of ain] unfolding s'_def
    by (auto simp: specPressed_def)
  from pb s'(1) have br: "if specPressed ain s (nat i) then buttonPressed i s1 = Inr s' else s' = s1"
    by (simp split: if_splits)
  from loop60_result [OF assms(1), of ain] obtain t where
    "loop60 ain s = Inr t" "bCurrVals t = map ain buttonLedPins"
    "fanState t =
       (let f = (if specPressed ain s 2 then 2 else if specPressed ain s 1 then 1
                 else if specPressed ain s 0 then 0 else fanState s)
        in if specPressed ain s 3 then (if f = 3 then 4 else 3) else f)"
    by blast
  with r p s' br show ?thesis by blast
qed

theorem press_threshold_witness:
  "arraysOk (initState\<lparr>bCurrVals := [1000, 1000, 1000, 1000, 1000]\<rparr>)
   \<and> (0::int) \<le> 1 \<and> (1::int) < 5
   \<and> \<not> specPressed (buttonsAt 700) (initState\<lparr>bCurrVals := [1000, 1000, 1000, 1000, 1000]\<rparr>) 1
   \<and> specPressed (buttonsAt 699) (initState\<lparr>bCurrVals := [1000, 1000, 1000, 1000, 1000]\<rparr>) 1
   \<and> (\<exists>s'. pollButton 1 (buttonsAt 700)
               (initState\<lparr>bCurrVals := [1000, 1000, 1000, 1000, 1000]\<rparr>) = Inr s'
          \<and> fanState s' = 0)
   \<and> (\<exists>s'. pollButton 1 (buttonsAt 699)
               (initState\<lparr>bCurrVals := [1000, 1000, 1000, 1000, 1000]\<rparr>) = Inr s'
          \<and> fanState s' = 1)"
  using press_threshold [of "initState\<lparr>bCurrVals := [1000, 1000, 1000, 1000, 1000]\<rparr>" 1
          "buttonsAt 700"]
        press_threshold [of "initState\<lparr>bCurrVals := [1000, 1000, 1000, 1000, 1000]\<rparr>" 1
          "buttonsAt 699"]
  by (auto simp: arraysOk_def initState_def specPressed_def buttonsAt_def buttonLedPins_def
        espLightTogglePin_def)

section \<open>Blinking in HighBlink\<close>

lemma staysHighBlink_fan: "staysHighBlink ains s \<Longrightarrow> fanState s = 4"
  by (cases ains) simp_all

lemma cNot_changes: "cNot v \<noteq> v"
  by (simp add: cNot_def)

lemma tick_in_highBlink:
  assumes "arraysOk s" "fanState s = 4"
  shows "\<exists>s'. loop60 ain s = Inr s' \<and> arraysOk s' \<and>
     counter s' = (if counter s = 29 then 0 else counter s + 1) \<and>
     pinLevels s' (A 2) = Some (statusLedStates s' ! 3) \<and>
     statusLedStates s' ! 3 =
       (if fanState s' = 4
        then (if counter s = 29 then cNot (statusLedStates s ! 3) else statusLedStates s ! 3)
        else (if fanState s' \<le> 2 then 1 else 0))"
proof -
  from loop60_result [OF assms(1), of ain] obtain s' where
    s': "loop60 ain s = Inr s'" "arraysOk s'"
     "fanState s' =
       (let f = (if specPressed ain s 2 then 2 else if specPressed ain s 1 then 1
                 else if specPressed ain s 0 then 0 else fanState s)
        in if specPressed ain s 3 then (if f = 3 then 4 else 3) else f)"
     "statusLedStates s' ! 3 =
       (let v = (if specPressed ain s 0 \<or> specPressed ain s 1 \<or> specPressed ain s 2
                    \<or> specPressed ain s 3
                 then (if fanState s' \<le> 2 then 1 else 0) else statusLedStates s ! 3)
        in if counter s = 29 \<and> fanState s' = 4 then cNot v else v)"
     "pinLevels s' (A 2) = Some (statusLedStates s' ! 3)"
     "counter s' = (if counter s = 29 then 0 else counter s + 1)"
    by blast
  have "statusLedStates s' ! 3 =
       (if fanState s' = 4
        then (if counter s = 29 then cNot (statusLedStates s ! 3) else statusLedStates s ! 3)
        else (if fanState s' \<le> 2 then 1 else 0))"
    using s'(3) unfolding s'(4) by (simp add: assms(2) Let_def split: if_splits)
  with s' show ?thesis by blast
qed

lemma runTicks_highBlink:
  "arraysOk s \<Longrightarrow> 0 \<le> counter s \<Longrightarrow> counter s < 30 \<Longrightarrow> staysHighBlink ains s \<Longrightarrow>
   \<exists>s'. runTicks ains s = Inr s' \<and> fanState s' = 4 \<and> arraysOk s' \<and>
      statusLedStates s' ! 3
        = (cNot ^^ ((nat (counter s) + length ains) div 30)) (statusLedStates s ! 3) \<and>
      (ains \<noteq> [] \<longrightarrow> pinLevels s' (A 2) = Some (statusLedStates s' ! 3))"
proof (induction ains arbitrary: s)
  case Nil
  then show ?case by simp
next
  case (Cons ain ains)
  from Cons.prems(4) have f: "fanState s = 4" by simp
  from tick_in_highBlink [OF Cons.prems(1) f, of ain] obtain s1 where
    s1: "loop60 ain s = Inr s1" "arraysOk s1"
        "counter s1 = (if counter s = 29 then 0 else counter s + 1)"
        "pinLevels s1 (A 2) = Some (statusLedStates s1 ! 3)"
        "statusLedStates s1 ! 3 =
          (if fanState s1 = 4
           then (if counter s = 29 then cNot (statusLedStates s ! 3) else statusLedStates s ! 3)
           else (if fanState s1 \<le> 2 then 1 else 0))"
    by blast
  from Cons.prems(4) s1(1) have st: "staysHighBlink ains s1" by simp
  then have f1: "fanState s1 = 4" by (rule staysHighBlink_fan)
  from Cons.prems(2,3) s1(3) have c1: "0 \<le> counter s1" "counter s1 < 30" by auto
  from Cons.IH [OF s1(2) c1 st] obtain s' where
    s': "runTicks ains s1 = Inr s'" "fanState s' = 4" "arraysOk s'"
        "statusLedStates s' ! 3
           = (cNot ^^ ((nat (counter s1) + length ains) div 30)) (statusLedStates s1 ! 3)"
        "ains \<noteq> [] \<longrightarrow> pinLevels s' (A 2) = Some (statusLedStates s' ! 3)"
    by blast
  have led: "statusLedStates s' ! 3
        = (cNot ^^ ((nat (counter s) + length (ain # ains)) div 30)) (statusLedStates s ! 3)"
  proof (cases "counter s = 29")
    case True
    then have "(nat (counter s) + length (ain # ains)) div 30
                 = Suc ((nat (counter s1) + length ains) div 30)"
      by (simp add: s1(3))
    with True show ?thesis
      by (simp add: s'(4) s1(5) f1 funpow_Suc_right del: funpow.simps)
  next
    case False
    with Cons.prems(2) have eq: "nat (counter s) + length (ain # ains)
                 = nat (counter s1) + length ains"
      by (simp add: s1(3) nat_add_distrib)
    from False have "statusLedStates s1 ! 3 = statusLedStates s ! 3"
      by (simp add: s1(5) f1)
    then show ?thesis
      by (simp only: eq s'(4))
  qed
  have pin: "pinLevels s' (A 2) = Some (statusLedStates s' ! 3)"
  proof (cases ains)
    case Nil
    with s'(1) s1(4) show ?thesis by simp
  next
    case (Cons a as)
    with s'(5) show ?thesis by simp
  qed
  from s' led pin show ?case
    by (simp add: s1(1))
qed

lemma leave_highBlink:
  assumes "arraysOk s" "fanState s = 4" "i = 0 \<or> i = 1 \<or> i = 2 \<or> i = 3"
  shows "\<exists>t u. buttonPressed i s = Inr t \<and> fanState t = i \<and>
     statusLedStates t ! 3 = (if i = 3 then 0 else 1) \<and>
     pinLevels t (A 2) = Some (statusLedStates t ! 3) \<and>
     blinkStep t = Inr u \<and> statusLedStates u = statusLedStates t \<and> pinLevels u = pinLevels t"
proof -
  from assms(1) obtain a b c d e where l: "statusLedStates s = [a, b, c, d, e]"
    using arraysOk_leds by blast
  from assms(3) show ?thesis
    by (elim disjE)
       (simp_all add: buttonPressed_def updateFan_Inr assms(2) l Let_def fanPinStates_def
          blinkStep_def fanPin1_def fanPin2_def fanPin3_def)
qed


text \<open>
  C7. Take any sequence of ticks before and after each of which the fan state is 4
  (HighBlink), started with the blink counter \<open>c\<close> in its range \<open>0..29\<close>. The ticks all
  succeed, and after \<open>n\<close> of them indicator 3 has been flipped \<open>(c + n) div 30\<close> times:
  once at each tick that brings the counter to 30, so once every 30 ticks, and not at all
  in between; each flip changes the value, and the level on the indicator's line is the
  stored value. From the state reached, whatever the blink phase, pressing button 0, 1, 2
  or 3 leaves HighBlink through \<open>updateFan\<close>, which alone sets indicator 3 and its line to
  the table value of the new state (off for 0, 1, 2, on for 3), and the blink step then
  leaves it alone. The same holds for a whole tick that ends outside HighBlink.
\<close>

theorem highBlink_indicator:
  assumes "arraysOk s" "0 \<le> counter s" "counter s < 30" "staysHighBlink ains s"
    "i = 0 \<or> i = 1 \<or> i = 2 \<or> i = 3"
  shows "\<exists>s'. runTicks ains s = Inr s' \<and> fanState s' = 4 \<and>
      statusLedStates s' ! 3
        = (cNot ^^ ((nat (counter s) + length ains) div 30)) (statusLedStates s ! 3) \<and>
      (ains \<noteq> [] \<longrightarrow> pinLevels s' (A 2) = Some (statusLedStates s' ! 3)) \<and>
      (\<forall>v. cNot v \<noteq> v) \<and>
      (\<exists>t u. buttonPressed i s' = Inr t \<and> fanState t = i \<and>
         statusLedStates t ! 3 = (if i = 3 then LOW else HIGH) \<and>
         pinLevels t (A 2) = Some (statusLedStates t ! 3) \<and>
         blinkStep t = Inr u \<and> statusLedStates u = statusLedStates t \<and>
         pinLevels u = pinLevels t) \<and>
      (\<forall>ain. \<exists>t. loop60 ain s' = Inr t \<and>
         pinLevels t (A 2) = Some (statusLedStates t ! 3) \<and>
         (fanState t \<noteq> 4 \<longrightarrow>
            statusLedStates t ! 3 = (if fanState t \<le> 2 then HIGH else LOW)))"
proof -
  from runTicks_highBlink [OF assms(1-4)] obtain s' where
    s': "runTicks ains s = Inr s'" "fanState s' = 4" "arraysOk s'"
      "statusLedStates s' ! 3
        = (cNot ^^ ((nat (counter s) + length ains) div 30)) (statusLedStates s ! 3)"
      "ains \<noteq> [] \<longrightarrow> pinLevels s' (A 2) = Some (statusLedStates s' ! 3)"
    by blast
  have leave: "\<exists>t u. buttonPressed i s' = Inr t \<and> fanState t = i \<and>
         statusLedStates t ! 3 = (if i = 3 then LOW else HIGH) \<and>
         pinLevels t (A 2) = Some (statusLedStates t ! 3) \<and>
         blinkStep t = Inr u \<and> statusLedStates u = statusLedStates t \<and>
         pinLevels u = pinLevels t"
    using s'(3,2) assms(5) by (rule leave_highBlink)
  have tick: "\<exists>t. loop60 ain s' = Inr t \<and>
         pinLevels t (A 2) = Some (statusLedStates t ! 3) \<and>
         (fanState t \<noteq> 4 \<longrightarrow>
            statusLedStates t ! 3 = (if fanState t \<le> 2 then HIGH else LOW))" for ain
    using tick_in_highBlink [OF s'(3,2), of ain] by auto
  from s' leave tick cNot_changes show ?thesis
    by blast
qed

theorem highBlink_indicator_witness:
  "arraysOk (initState\<lparr>fanState := 4, counter := 29\<rparr>)
   \<and> 0 \<le> counter (initState\<lparr>fanState := 4, counter := 29\<rparr>)
   \<and> counter (initState\<lparr>fanState := 4, counter := 29\<rparr>) < 30
   \<and> staysHighBlink [buttonsAt 1023, buttonsAt 1023] (initState\<lparr>fanState := 4, counter := 29\<rparr>)
   \<and> (\<exists>s'. runTicks [buttonsAt 1023, buttonsAt 1023] (initState\<lparr>fanState := 4, counter := 29\<rparr>)
            = Inr s'
          \<and> fanState s' = 4 \<and> statusLedStates s' ! 3 = LOW \<and> pinLevels s' (A 2) = Some LOW
          \<and> (\<exists>t. buttonPressed 2 s' = Inr t \<and> fanState t = 2 \<and> statusLedStates t ! 3 = HIGH
                 \<and> pinLevels t (A 2) = Some HIGH))"
proof -
  let ?s = "initState\<lparr>fanState := 4, counter := 29\<rparr>"
  let ?a = "buttonsAt 1023"
  have ok: "arraysOk ?s" and c: "0 \<le> counter ?s" "counter ?s < 30"
    by (simp_all add: arraysOk_def initState_def)
  from loop60_result [OF ok, of ?a] obtain s1 where
    s1: "loop60 ?a ?s = Inr s1" "arraysOk s1" "bCurrVals s1 = map ?a buttonLedPins"
      "fanState s1 =
       (let f = (if specPressed ?a ?s 2 then 2 else if specPressed ?a ?s 1 then 1
                 else if specPressed ?a ?s 0 then 0 else fanState ?s)
        in if specPressed ?a ?s 3 then (if f = 3 then 4 else 3) else f)"
    by blast
  have p0: "\<not> specPressed ?a ?s k" if "k < 5" for k
    using that by (auto simp: specPressed_def initState_def buttonsAt_def buttonLedPins_def
        espLightTogglePin_def nth_Cons split: nat.splits)
  from s1(4) have f1: "fanState s1 = 4"
    by (simp add: p0)
  from loop60_result [OF s1(2), of ?a] obtain s2 where
    s2: "loop60 ?a s1 = Inr s2"
      "fanState s2 =
       (let f = (if specPressed ?a s1 2 then 2 else if specPressed ?a s1 1 then 1
                 else if specPressed ?a s1 0 then 0 else fanState s1)
        in if specPressed ?a s1 3 then (if f = 3 then 4 else 3) else f)"
    by blast
  have p1: "\<not> specPressed ?a s1 k" if "k < 5" for k
    using that by (auto simp: specPressed_def s1(3) buttonsAt_def buttonLedPins_def
        espLightTogglePin_def nth_Cons split: nat.splits)
  from s2(2) have f2: "fanState s2 = 4"
    by (simp add: p1 f1)
  have st: "staysHighBlink [?a, ?a] ?s"
    by (simp add: s1(1) s2(1) f1 f2)
  have i2: "(2::int) = 0 \<or> (2::int) = 1 \<or> (2::int) = 2 \<or> (2::int) = 3" by simp
  from highBlink_indicator [OF ok c st i2] obtain s' t where
    "runTicks [?a, ?a] ?s = Inr s'" "fanState s' = 4"
    "statusLedStates s' ! 3 = (cNot ^^ ((nat (counter ?s) + length [?a, ?a]) div 30)) (statusLedStates ?s ! 3)"
    "pinLevels s' (A 2) = Some (statusLedStates s' ! 3)"
    "buttonPressed 2 s' = Inr t" "fanState t = 2" "statusLedStates t ! 3 = HIGH"
    "pinLevels t (A 2) = Some (statusLedStates t ! 3)"
    by auto
  moreover have "(cNot ^^ ((nat (counter ?s) + length [?a, ?a]) div 30)) (statusLedStates ?s ! 3) = LOW"
    by (simp add: initState_def cNot_def)
  ultimately show ?thesis
    using ok c st by auto
qed

end
